theory Spec2Isabelle
  imports Complex_Main "HOL-Library.Monad_Syntax"
begin

section \<open>Numbers\<close>

text \<open>
  The analytics view of \<^verbatim>\<open>src/components/CreatorStudio.tsx\<close> computes with
  JavaScript numbers, which are IEEE 754 doubles. In the series synthesizer a finite number
  is modelled by the real it denotes, and the values that are not finite are kept: an
  operation on finite operands whose result leaves the range of the doubles gives
  \<open>Infinity\<close> or \<open>-Infinity\<close>, and \<open>NaN\<close> comes from \<open>Infinity * 0\<close>,
  \<open>Infinity - Infinity\<close> and from arithmetic on \<open>undefined\<close> (a read outside an
  array). Every operation with a \<open>NaN\<close> operand yields \<open>NaN\<close>, every comparison with a
  \<open>NaN\<close> operand is false. Within the range a result is not rounded to 53 bits, and the
  sign of a zero is not kept.
\<close>

datatype jsnum = Num real | PInf | NInf | NaN

text \<open>A result of magnitude \<open>2^1024 - 2^970\<close> or more rounds to an infinity.\<close>

definition overflowThreshold :: real where
  "overflowThreshold = 2 ^ 1024 - 2 ^ 970"

definition fromReal :: "real \<Rightarrow> jsnum" where
  "fromReal r =
     (if overflowThreshold \<le> r then PInf
      else if r \<le> - overflowThreshold then NInf
      else Num r)"

fun js_add :: "jsnum \<Rightarrow> jsnum \<Rightarrow> jsnum" where
  "js_add (Num a) (Num b) = fromReal (a + b)"
| "js_add NaN _ = NaN"
| "js_add _ NaN = NaN"
| "js_add PInf NInf = NaN"
| "js_add NInf PInf = NaN"
| "js_add PInf _ = PInf"
| "js_add _ PInf = PInf"
| "js_add NInf _ = NInf"
| "js_add _ NInf = NInf"

fun js_mul :: "jsnum \<Rightarrow> jsnum \<Rightarrow> jsnum" where
  "js_mul (Num a) (Num b) = fromReal (a * b)"
| "js_mul NaN _ = NaN"
| "js_mul _ NaN = NaN"
| "js_mul PInf (Num b) = (if b = 0 then NaN else if 0 < b then PInf else NInf)"
| "js_mul NInf (Num b) = (if b = 0 then NaN else if 0 < b then NInf else PInf)"
| "js_mul (Num a) PInf = (if a = 0 then NaN else if 0 < a then PInf else NInf)"
| "js_mul (Num a) NInf = (if a = 0 then NaN else if 0 < a then NInf else PInf)"
| "js_mul PInf PInf = PInf"
| "js_mul NInf NInf = PInf"
| "js_mul PInf NInf = NInf"
| "js_mul NInf PInf = NInf"

text \<open>Division is only used by the code as \<open>target / sum\<close> under the guard \<open>sum > 0\<close>,
  with a finite \<open>target\<close>; the other cases are those of a divisor \<open>+0\<close>.\<close>

fun js_div :: "jsnum \<Rightarrow> jsnum \<Rightarrow> jsnum" where
  "js_div (Num a) (Num b) =
     (if b = 0 then (if a = 0 then NaN else if 0 < a then PInf else NInf)
      else fromReal (a / b))"
| "js_div NaN _ = NaN"
| "js_div _ NaN = NaN"
| "js_div (Num a) _ = Num 0"
| "js_div PInf (Num b) = (if 0 \<le> b then PInf else NInf)"
| "js_div NInf (Num b) = (if 0 \<le> b then NInf else PInf)"
| "js_div _ _ = NaN"

fun js_gt :: "jsnum \<Rightarrow> jsnum \<Rightarrow> bool" where
  "js_gt (Num a) (Num b) = (a > b)"
| "js_gt NaN _ = False"
| "js_gt _ NaN = False"
| "js_gt PInf PInf = False"
| "js_gt PInf _ = True"
| "js_gt _ PInf = False"
| "js_gt NInf _ = False"
| "js_gt _ NInf = True"

fun js_le :: "jsnum \<Rightarrow> jsnum \<Rightarrow> bool" where
  "js_le (Num a) (Num b) = (a \<le> b)"
| "js_le NaN _ = False"
| "js_le _ NaN = False"
| "js_le NInf _ = True"
| "js_le _ PInf = True"
| "js_le _ _ = False"

text \<open>\<open>Math.round\<close> rounds to the nearest integer, a tie towards plus infinity; this is
  \<^const>\<open>round\<close>, which is \<open>\<lfloor>x + 1/2\<rfloor>\<close>.\<close>

fun js_round :: "jsnum \<Rightarrow> jsnum" where
  "js_round (Num a) = Num (of_int (round a))"
| "js_round v = v"

fun js_max :: "jsnum \<Rightarrow> jsnum \<Rightarrow> jsnum" where
  "js_max (Num a) (Num b) = Num (max a b)"
| "js_max NaN _ = NaN"
| "js_max _ NaN = NaN"
| "js_max PInf _ = PInf"
| "js_max _ PInf = PInf"
| "js_max NInf v = v"
| "js_max v NInf = v"

text \<open>An array read: \<open>undefined\<close> (here \<open>None\<close>) outside \<open>0 \<dots> length - 1\<close>.\<close>

definition js_nth :: "'a list \<Rightarrow> int \<Rightarrow> 'a option" where
  "js_nth xs i = (if 0 \<le> i \<and> i < int (length xs) then Some (xs ! nat i) else None)"

text \<open>An array element used in arithmetic: \<open>undefined\<close> becomes \<open>NaN\<close>.\<close>

definition to_number :: "real option \<Rightarrow> jsnum" where
  "to_number v = (case v of None \<Rightarrow> NaN | Some r \<Rightarrow> Num r)"

definition to_jsnum :: "jsnum option \<Rightarrow> jsnum" where
  "to_jsnum v = (case v of None \<Rightarrow> NaN | Some r \<Rightarrow> r)"


section \<open>The series synthesizer\<close>

text \<open>
  \<open>buildTargetCumulativeTimeline(length, target, config)\<close>. The length is an integer
  (the spec's contract; zero and negative lengths take the degenerate path), the target and
  the shape parameters are finite numbers. The wave is finite, its factor \<open>|sin|\<close> being at
  most 1. The field \<open>value\<close> of a point is \<open>val\<close> here.
\<close>

record SeriesPoint =
  day :: nat
  val :: jsnum
  isWeek :: bool

record config =
  dailyBase :: real
  dailyWave :: real
  weeklyBonus :: real
  dailyDrift :: "real option"
  segmentMultipliers :: "real list option"

text \<open>\<open>config.segmentMultipliers ?? [1]\<close>\<close>

definition segmentMultipliersOf :: "config \<Rightarrow> real list" where
  "segmentMultipliersOf cfg = (case segmentMultipliers cfg of None \<Rightarrow> [1] | Some ms \<Rightarrow> ms)"

text \<open>
  \<open>Math.min(Math.floor(index / segmentSize), segmentMultipliers.length - 1)\<close> with
  \<open>segmentSize = Math.ceil((length - 1) / segmentMultipliers.length)\<close>. The function is
  only reached with \<open>length \<ge> 2\<close>; for an empty array \<open>segmentSize\<close> is then
  \<open>Infinity\<close>, and \<open>index / Infinity\<close> is \<open>0\<close>.
\<close>

definition segmentIndex :: "int \<Rightarrow> nat \<Rightarrow> nat \<Rightarrow> int" where
  "segmentIndex len nseg index =
     (if nseg = 0 then min 0 (int nseg - 1)
      else min \<lfloor>real index / real_of_int \<lceil>real_of_int (len - 1) / real nseg\<rceil>\<rfloor> (int nseg - 1))"

definition increment :: "int \<Rightarrow> config \<Rightarrow> nat \<Rightarrow> jsnum" where
  "increment len cfg index =
     (let day = index + 2;
          wave = Num (real_of_int (round (\<bar>sin (real index / 4.5)\<bar> * dailyWave cfg)));
          drift = (case dailyDrift cfg of None \<Rightarrow> Num 0
                   | Some d \<Rightarrow> if d \<noteq> 0 then js_mul (Num d) (Num (real index)) else Num 0);
          dailyStep = js_add (js_add (Num (dailyBase cfg)) wave) drift;
          weeklyBoost = Num (if day mod 7 = 0 then weeklyBonus cfg else 0);
          ms = segmentMultipliersOf cfg;
          segmentMultiplier = to_number (js_nth ms (segmentIndex len (length ms) index));
          jitter = Num (1 + real_of_int (int (index mod 5) - 2) * 0.04)
      in js_max (Num 1) (js_mul (js_mul (js_add dailyStep weeklyBoost) segmentMultiplier) jitter))"

definition increments :: "int \<Rightarrow> config \<Rightarrow> jsnum list" where
  "increments len cfg = map (increment len cfg) [0..<nat (len - 1)]"

text \<open>\<open>increments.reduce((acc, value) => acc + value, 0)\<close>\<close>

definition sumOf :: "jsnum list \<Rightarrow> jsnum" where
  "sumOf incs = foldl js_add (Num 0) incs"

definition scaleOf :: "real \<Rightarrow> jsnum \<Rightarrow> jsnum" where
  "scaleOf target s = (if js_gt s (Num 0) then js_div (Num target) s else Num 0)"

text \<open>
  The callback of the second \<open>Array.from\<close>, run for the indices in order; the variable
  \<open>total\<close> that it updates is passed along (as \<open>tot\<close>).
\<close>

fun walk :: "int \<Rightarrow> real \<Rightarrow> jsnum list \<Rightarrow> jsnum \<Rightarrow> jsnum \<Rightarrow> nat list \<Rightarrow> SeriesPoint list" where
  "walk len target incs scale tot [] = []"
| "walk len target incs scale tot (index # rest) =
     (let day = index + 1 in
      if index = 0 then
        \<lparr>day = day, val = Num 0, isWeek = (day mod 7 = 0)\<rparr>
          # walk len target incs scale tot rest
      else
        let tot' = js_add tot (js_mul (to_jsnum (js_nth incs (int index - 1))) scale);
            v = (if int index = len - 1 then Num target
                 else js_max (Num 0) (js_round tot'))
        in \<lparr>day = day, val = v, isWeek = (day mod 7 = 0)\<rparr>
             # walk len target incs scale tot' rest)"

definition buildTargetCumulativeTimeline :: "int \<Rightarrow> real \<Rightarrow> config \<Rightarrow> SeriesPoint list" where
  "buildTargetCumulativeTimeline len target cfg =
     (if len \<le> 1 then [\<lparr>day = 1, val = Num 0, isWeek = True\<rparr>]
      else
        let incs = increments len cfg;
            scale = scaleOf target (sumOf incs)
        in walk len target incs scale (Num 0) [0..<nat len])"


text \<open>The shape of the spec's concrete scenario, a shape with an empty array of segment
  multipliers, and two shapes whose increments leave the range of the doubles.\<close>

definition flatShape :: config where
  "flatShape = \<lparr>dailyBase = 10, dailyWave = 0, weeklyBonus = 0, dailyDrift = Some 0,
                 segmentMultipliers = Some [1]\<rparr>"

definition noSegments :: config where
  "noSegments = \<lparr>dailyBase = 10, dailyWave = 0, weeklyBonus = 0, dailyDrift = None,
                  segmentMultipliers = Some []\<rparr>"

definition steepShape :: config where
  "steepShape = \<lparr>dailyBase = 17 * 10 ^ 307, dailyWave = 0, weeklyBonus = 0,
                  dailyDrift = Some (17 * 10 ^ 307), segmentMultipliers = Some [0]\<rparr>"


text \<open>
  Shapes whose parameters, drift over the whole series and segment multipliers are at most
  \<open>2^400\<close> in magnitude: no intermediate result of an increment then comes near the end of
  the range of the doubles.
\<close>

definition shapeBound :: real where
  "shapeBound = 2 ^ 400"

definition boundedShape :: "int \<Rightarrow> config \<Rightarrow> bool" where
  "boundedShape len cfg =
     (\<bar>dailyBase cfg\<bar> \<le> shapeBound \<and> \<bar>dailyWave cfg\<bar> \<le> shapeBound
      \<and> \<bar>weeklyBonus cfg\<bar> \<le> shapeBound
      \<and> (case dailyDrift cfg of None \<Rightarrow> True | Some d \<Rightarrow> \<bar>d\<bar> * real_of_int len \<le> shapeBound)
      \<and> list_all (\<lambda>m. \<bar>m\<bar> \<le> shapeBound) (segmentMultipliersOf cfg))"



section \<open>The axis scale planner\<close>











section \<open>The coordinate projector\<close>

definition chartWidth :: real where "chartWidth = 720"
definition chartPaddingLeft :: real where "chartPaddingLeft = 70"
definition chartPaddingRight :: real where "chartPaddingRight = 24"
definition minStep :: real where "minStep = 18"

definition chartSvgWidth :: "nat \<Rightarrow> real" where
  "chartSvgWidth timelineLength =
     max chartWidth
       (chartPaddingLeft + chartPaddingRight + max 0 (real timelineLength - 1) * minStep)"

definition chartPlotWidth :: "nat \<Rightarrow> real" where
  "chartPlotWidth timelineLength =
     chartSvgWidth timelineLength - chartPaddingLeft - chartPaddingRight"

definition step :: "nat \<Rightarrow> real" where
  "step timelineLength =
     (if timelineLength > 1 then chartPlotWidth timelineLength / (real timelineLength - 1)
      else chartPlotWidth timelineLength)"

text \<open>The horizontal part of \<open>chartPoints\<close>; the field \<open>x\<close> is \<open>xPos\<close> here. The
  vertical coordinate plays no part in the properties below and is left out.\<close>

record ProjectedPoint = SeriesPoint +
  xPos :: real

definition chartPoints :: "SeriesPoint list \<Rightarrow> ProjectedPoint list" where
  "chartPoints timeline =
     map (\<lambda>(index, point).
            \<lparr>day = day point, val = val point, isWeek = isWeek point,
             xPos = chartPaddingLeft + real index * step (length timeline)\<rparr>)
         (enumerate 0 timeline)"

text \<open>
  The handler \<open>onMouseMove\<close>, from the pointer's \<open>clientX\<close> and the left edge and width of
  the element's bounding box to the new hovered index. A pointer event is only delivered to
  an element of positive width, where \<open>scaleX\<close> is an ordinary quotient.
\<close>

definition clampedX :: "nat \<Rightarrow> real \<Rightarrow> real" where
  "clampedX timelineLength relativeX =
     max chartPaddingLeft (min (chartSvgWidth timelineLength - chartPaddingRight) relativeX)"

definition safeIndex :: "nat \<Rightarrow> real \<Rightarrow> int" where
  "safeIndex timelineLength relativeX =
     (let index = round ((clampedX timelineLength relativeX - chartPaddingLeft)
                           / step timelineLength)
      in max 0 (min (int timelineLength - 1) index))"

definition onMouseMove :: "nat \<Rightarrow> real \<Rightarrow> real \<Rightarrow> real \<Rightarrow> int option \<Rightarrow> int option" where
  "onMouseMove timelineLength clientX boundsLeft boundsWidth hoveredIndex =
     (if timelineLength = 0 then hoveredIndex
      else
        let scaleX = chartSvgWidth timelineLength / boundsWidth;
            relativeX = (clientX - boundsLeft) * scaleX
        in Some (safeIndex timelineLength relativeX))"


section \<open>The date axis labeler\<close>

text \<open>
  A \<open>Date\<close> in local time, by its calendar fields; \<open>month\<close> counts from 0 as
  \<open>getMonth()\<close> does. \<open>setDate(n)\<close> carries a day of the month beyond the end of the
  month into the following months, and \<open>setDate(0)\<close> is the last day of the month before.
\<close>

record jsdate =
  fullYear :: nat
  month :: nat
  date :: nat

definition isLeapYear :: "nat \<Rightarrow> bool" where
  "isLeapYear y = ((y mod 4 = 0 \<and> y mod 100 \<noteq> 0) \<or> y mod 400 = 0)"

definition daysInMonth :: "nat \<Rightarrow> nat \<Rightarrow> nat" where
  "daysInMonth y m =
     (if m = 1 then (if isLeapYear y then 29 else 28)
      else if m = 3 \<or> m = 5 \<or> m = 8 \<or> m = 10 then 30 else 31)"

function rollForward :: "nat \<Rightarrow> nat \<Rightarrow> nat \<Rightarrow> jsdate" where
  "rollForward y m n =
     (if daysInMonth y m < n then
        (if m = 11 then rollForward (y + 1) 0 (n - daysInMonth y m)
         else rollForward y (m + 1) (n - daysInMonth y m))
      else \<lparr>fullYear = y, month = m, date = n\<rparr>)"
  by pat_completeness auto
termination
  by (relation "measure (\<lambda>(y, m, n). n)") (auto simp: daysInMonth_def)

declare rollForward.simps [simp del]

definition setDate :: "jsdate \<Rightarrow> nat \<Rightarrow> jsdate" where
  "setDate d n =
     (if n = 0 then
        (if month d = 0 then \<lparr>fullYear = fullYear d - 1, month = 11, date = 31\<rparr>
         else \<lparr>fullYear = fullYear d, month = month d - 1,
               date = daysInMonth (fullYear d) (month d - 1)\<rparr>)
      else rollForward (fullYear d) (month d) n)"

definition digitChar :: "nat \<Rightarrow> char" where
  "digitChar n = ''0123456789'' ! n"

text \<open>\<open>String(n)\<close> for a natural number.\<close>

function numberToString :: "nat \<Rightarrow> string" where
  "numberToString n =
     (if n < 10 then [digitChar n] else numberToString (n div 10) @ [digitChar (n mod 10)])"
  by pat_completeness auto
termination
  by (relation "measure (\<lambda>n. n)") auto

declare numberToString.simps [simp del]

definition padStart :: "string \<Rightarrow> nat \<Rightarrow> char \<Rightarrow> string" where
  "padStart s targetLength c = replicate (targetLength - length s) c @ s"

definition formatFullDate :: "jsdate \<Rightarrow> string" where
  "formatFullDate d =
     numberToString (fullYear d) @ ''-'' @ padStart (numberToString (month d + 1)) 2 CHR ''0''
       @ ''-'' @ padStart (numberToString (date d)) 2 CHR ''0''"

definition formatDateLabel :: "jsdate \<Rightarrow> string" where
  "formatDateLabel d = formatFullDate d"

text \<open>\<open>new Date('2025-11-01T00:00:00')\<close>\<close>

definition timelineStart :: jsdate where
  "timelineStart = \<lparr>fullYear = 2025, month = 10, date = 1\<rparr>"

definition tickInterval :: int where
  "tickInterval = 7"

text \<open>
  The loop \<open>for (let i = 0; i < timelineLength; i += tickInterval) tickOffsets.push(i)\<close>,
  with the interval as a parameter. With an interval that is not positive the loop does
  not end, so its result is an option and \<open>None\<close> stands for not returning.
\<close>

partial_function (option) tickLoop :: "int \<Rightarrow> int \<Rightarrow> int \<Rightarrow> int list \<Rightarrow> int list option" where
  "tickLoop interval timelineLength i tickOffsets =
     (if i < timelineLength
      then tickLoop interval timelineLength (i + interval) (tickOffsets @ [i])
      else Some tickOffsets)"

declare tickLoop.simps [code]

definition js_last :: "'a list \<Rightarrow> 'a option" where
  "js_last xs = js_nth xs (int (length xs) - 1)"

definition tickOffsets :: "int \<Rightarrow> int \<Rightarrow> int list option" where
  "tickOffsets interval timelineLength =
     do {
       offs \<leftarrow> tickLoop interval timelineLength 0 [];
       Some (if timelineLength > 0 \<and> js_last offs \<noteq> Some (timelineLength - 1)
             then offs @ [timelineLength - 1] else offs)
     }"

record tick =
  index :: int
  label :: string

definition tickAt :: "int \<Rightarrow> tick" where
  "tickAt offset =
     \<lparr>index = offset,
      label = formatDateLabel (setDate timelineStart (date timelineStart + nat offset))\<rparr>"

definition xAxisTicks :: "nat \<Rightarrow> tick list option" where
  "xAxisTicks timelineLength =
     map_option (map tickAt) (tickOffsets tickInterval (int timelineLength))"


section \<open>Properties of the series synthesizer\<close>

lemma walk_length: "length (walk len target incs scale tot idxs) = length idxs"
  by (induction idxs arbitrary: tot) (simp_all add: Let_def)

lemma fromReal_Num: "\<bar>r\<bar> < overflowThreshold \<Longrightarrow> fromReal r = Num r"
  by (auto simp: fromReal_def)

lemma threshold_big: "2 ^ 1023 < overflowThreshold"
  by (simp add: overflowThreshold_def)

lemma fromReal_small: "\<bar>r\<bar> \<le> 2 ^ 64 \<Longrightarrow> fromReal r = Num r"
proof -
  assume "\<bar>r\<bar> \<le> 2 ^ 64"
  moreover have "(2::real) ^ 64 < 2 ^ 1023" by simp
  ultimately have "\<bar>r\<bar> < overflowThreshold" using threshold_big by linarith
  then show ?thesis by (rule fromReal_Num)
qed

lemma walk_last:
  "idxs \<noteq> [] \<Longrightarrow> last idxs \<noteq> 0 \<Longrightarrow> int (last idxs) = len - 1 \<Longrightarrow>
   val (last (walk len target incs scale tot idxs)) = Num target"
proof (induction idxs arbitrary: tot)
  case Nil
  then show ?case by simp
next
  case (Cons i rest)
  show ?case
  proof (cases "rest = []")
    case True
    with Cons.prems show ?thesis by (simp add: Let_def)
  next
    case False
    then have ne: "\<And>t. walk len target incs scale t rest \<noteq> []"
      using walk_length [of len target incs scale _ rest] by (metis length_0_conv)
    from False Cons.prems have "last rest \<noteq> 0" "int (last rest) = len - 1" by simp_all
    with False Cons.IH have "\<And>t. val (last (walk len target incs scale t rest)) = Num target"
      by blast
    with ne show ?thesis by (simp add: Let_def)
  qed
qed

lemma timeline_last:
  assumes "2 \<le> len"
  shows "buildTargetCumulativeTimeline len target cfg \<noteq> []"
    "val (last (buildTargetCumulativeTimeline len target cfg)) = Num target"
proof -
  from assms have ne: "[0..<nat len] \<noteq> []" by simp
  from assms have l: "last [0..<nat len] = nat len - 1" by simp
  from assms l have "last [0..<nat len] \<noteq> 0" "int (last [0..<nat len]) = len - 1" by simp_all
  with ne have "val (last (walk len target (increments len cfg)
      (scaleOf target (sumOf (increments len cfg))) (Num 0) [0..<nat len])) = Num target"
    by (rule walk_last)
  with assms show "val (last (buildTargetCumulativeTimeline len target cfg)) = Num target"
    by (simp add: buildTargetCumulativeTimeline_def Let_def)
  from assms have "length (buildTargetCumulativeTimeline len target cfg) = nat len"
    by (simp add: buildTargetCumulativeTimeline_def Let_def walk_length)
  with assms show "buildTargetCumulativeTimeline len target cfg \<noteq> []" by auto
qed

text \<open>
  Claim C1. For every length of at least 2, every target and every shape, the series has
  \<open>length\<close> points and the value of the last one is the target itself.
\<close>

theorem last_value_is_target:
  assumes "2 \<le> len"
  shows "length (buildTargetCumulativeTimeline len target cfg) = nat len
       \<and> val (last (buildTargetCumulativeTimeline len target cfg)) = Num target"
proof -
  from assms have ne: "[0..<nat len] \<noteq> []" by simp
  from assms have l: "last [0..<nat len] = nat len - 1" by simp
  from assms l have "last [0..<nat len] \<noteq> 0" "int (last [0..<nat len]) = len - 1" by simp_all
  with ne have "val (last (walk len target (increments len cfg)
      (scaleOf target (sumOf (increments len cfg))) (Num 0) [0..<nat len])) = Num target"
    by (rule walk_last)
  with assms show ?thesis
    by (simp add: buildTargetCumulativeTimeline_def Let_def walk_length)
qed

theorem last_value_is_target_witness:
  "(2::int) \<le> 5 \<and> length (buildTargetCumulativeTimeline 5 100 flatShape) = 5
   \<and> val (last (buildTargetCumulativeTimeline 5 100 flatShape)) = Num 100"
  using last_value_is_target [of 5 100 flatShape] by simp

text \<open>
  Claim C6. For every length of at most 1 (zero and negative lengths too), every target and
  every shape, the result is the single point of day 1, value 0, flagged as a week boundary;
  the increments, their sum and the scale are not evaluated on this path.
\<close>

theorem degenerate_single_point:
  "len \<le> 1 \<Longrightarrow>
   buildTargetCumulativeTimeline len target cfg = [\<lparr>day = 1, val = Num 0, isWeek = True\<rparr>]"
  by (simp add: buildTargetCumulativeTimeline_def)

theorem degenerate_single_point_witness:
  "(0::int) \<le> 1
   \<and> buildTargetCumulativeTimeline 0 100 flatShape = [\<lparr>day = 1, val = Num 0, isWeek = True\<rparr>]"
  using degenerate_single_point [of 0 100 flatShape] by simp

text \<open>
  Claim C8. With length 5, target 100 and the flat shape (base 10, no wave, no weekly
  bonus, no drift, one segment of multiplier 1) the days are 1 to 5 and the values are
  0, 23, 48, 73 and 100.
\<close>

theorem flat_scenario:
  "map (\<lambda>p. (day p, val p)) (buildTargetCumulativeTimeline 5 100 flatShape)
     = [(1, Num 0), (2, Num 23), (3, Num 48), (4, Num 73), (5, Num 100)]"
proof -
  have "buildTargetCumulativeTimeline 5 100 flatShape
      = [\<lparr>day = 1, val = Num 0, isWeek = False\<rparr>, \<lparr>day = 2, val = Num 23, isWeek = False\<rparr>,
         \<lparr>day = 3, val = Num 48, isWeek = False\<rparr>, \<lparr>day = 4, val = Num 73, isWeek = False\<rparr>,
         \<lparr>day = 5, val = Num 100, isWeek = False\<rparr>]"
    by (simp add: buildTargetCumulativeTimeline_def flatShape_def increments_def
        increment_def segmentMultipliersOf_def segmentIndex_def js_nth_def sumOf_def
        scaleOf_def upt_rec to_jsnum_def to_number_def Let_def round_def fromReal_small)
  then show ?thesis by simp
qed


subsection \<open>The raw increments\<close>

lemma fromReal_mid: "\<bar>r\<bar> \<le> 2 ^ 1000 \<Longrightarrow> fromReal r = Num r"
proof -
  assume "\<bar>r\<bar> \<le> 2 ^ 1000"
  moreover have "(2::real) ^ 1000 < 2 ^ 1023" by simp
  ultimately have "\<bar>r\<bar> < overflowThreshold" using threshold_big by linarith
  then show ?thesis by (rule fromReal_Num)
qed

lemma js_add_Num: "\<bar>a + b\<bar> \<le> 2 ^ 1000 \<Longrightarrow> js_add (Num a) (Num b) = Num (a + b)"
  by (simp add: fromReal_mid)

lemma js_mul_Num: "\<bar>a * b\<bar> \<le> 2 ^ 1000 \<Longrightarrow> js_mul (Num a) (Num b) = Num (a * b)"
  by (simp add: fromReal_mid)

lemma segmentIndex_range:
  assumes "0 < nseg" "2 \<le> len"
  shows "0 \<le> segmentIndex len nseg i \<and> segmentIndex len nseg i < int nseg"
proof -
  have "0 < real_of_int (len - 1) / real nseg" using assms by simp
  then have "0 < \<lceil>real_of_int (len - 1) / real nseg\<rceil>" by linarith
  then have "0 \<le> real i / real_of_int \<lceil>real_of_int (len - 1) / real nseg\<rceil>" by simp
  then have "0 \<le> \<lfloor>real i / real_of_int \<lceil>real_of_int (len - 1) / real nseg\<rceil>\<rfloor>" by simp
  with assms show ?thesis by (simp add: segmentIndex_def)
qed

lemma jitter_bound: "0 \<le> q \<Longrightarrow> q < 5 \<Longrightarrow> \<bar>1 + (q - 2) * 0.04\<bar> \<le> (2::real)"
  by (simp add: abs_le_iff field_simps)

lemma shapeBound_facts:
  "1 \<le> shapeBound" "4 * shapeBound + 1 \<le> 2 ^ 1000"
  "2 * ((4 * shapeBound + 1) * shapeBound) \<le> 2 ^ 804"
  by (simp_all add: shapeBound_def)

lemma wave_bound:
  assumes "\<bar>w\<bar> \<le> shapeBound"
  shows "\<bar>real_of_int (round (\<bar>sin t\<bar> * w))\<bar> \<le> shapeBound + 1"
proof -
  have "\<bar>\<bar>sin t\<bar> * w\<bar> \<le> 1 * \<bar>w\<bar>"
    unfolding abs_mult by (intro mult_right_mono) simp_all
  with assms have x: "\<bar>\<bar>sin t\<bar> * w\<bar> \<le> shapeBound" by simp
  have "real_of_int (round (\<bar>sin t\<bar> * w)) \<le> \<bar>sin t\<bar> * w + 1 / 2" by (rule of_int_round_le)
  moreover have "\<bar>sin t\<bar> * w - 1 / 2 \<le> real_of_int (round (\<bar>sin t\<bar> * w))"
    by (rule of_int_round_ge)
  ultimately show ?thesis using x by linarith
qed

lemma drift_bound:
  assumes "boundedShape len cfg" "int i < len"
  shows "\<exists>dr. (case dailyDrift cfg of None \<Rightarrow> Num 0
                | Some d \<Rightarrow> if d \<noteq> 0 then js_mul (Num d) (Num (real i)) else Num 0) = Num dr
              \<and> \<bar>dr\<bar> \<le> shapeBound"
proof (cases "dailyDrift cfg")
  case None
  then show ?thesis using shapeBound_facts(1) by simp
next
  case (Some d)
  with assms(1) have b: "\<bar>d\<bar> * real_of_int len \<le> shapeBound" by (simp add: boundedShape_def)
  from assms(2) have "real i \<le> real_of_int len" by linarith
  then have "\<bar>d\<bar> * real i \<le> \<bar>d\<bar> * real_of_int len" by (intro mult_left_mono) simp_all
  with b have di: "\<bar>d * real i\<bar> \<le> shapeBound" by (simp add: abs_mult)
  with shapeBound_facts have "\<bar>d * real i\<bar> \<le> 2 ^ 1000" by linarith
  then have "js_mul (Num d) (Num (real i)) = Num (d * real i)" by (rule js_mul_Num)
  with Some di shapeBound_facts(1) show ?thesis by auto
qed

lemma increment_bounded:
  assumes b: "boundedShape len cfg" and ne: "segmentMultipliers cfg \<noteq> Some []"
    and len: "2 \<le> len" and i: "int i < len"
  shows "\<exists>r. increment len cfg i = Num r \<and> 1 \<le> r \<and> r \<le> 2 ^ 804"
proof -
  let ?B = shapeBound
  define w where "w = real_of_int (round (\<bar>sin (real i / 4.5)\<bar> * dailyWave cfg))"
  from b have "\<bar>dailyWave cfg\<bar> \<le> ?B" by (simp add: boundedShape_def)
  then have w: "\<bar>w\<bar> \<le> ?B + 1" unfolding w_def by (rule wave_bound)
  from drift_bound [OF b i] obtain dr where
    dr: "(case dailyDrift cfg of None \<Rightarrow> Num 0
          | Some d \<Rightarrow> if d \<noteq> 0 then js_mul (Num d) (Num (real i)) else Num 0) = Num dr"
    and drb: "\<bar>dr\<bar> \<le> ?B" by blast
  from b have base: "\<bar>dailyBase cfg\<bar> \<le> ?B" by (simp add: boundedShape_def)
  define boost where "boost = (if (i + 2) mod 7 = 0 then weeklyBonus cfg else 0)"
  from b shapeBound_facts(1) have boost: "\<bar>boost\<bar> \<le> ?B" by (simp add: boundedShape_def boost_def)
  from ne have nonempty: "0 < length (segmentMultipliersOf cfg)"
    by (auto simp: segmentMultipliersOf_def split: option.splits)
  define k where "k = nat (segmentIndex len (length (segmentMultipliersOf cfg)) i)"
  from segmentIndex_range [OF nonempty len, of i]
  have k: "k < length (segmentMultipliersOf cfg)"
    "js_nth (segmentMultipliersOf cfg) (segmentIndex len (length (segmentMultipliersOf cfg)) i)
       = Some (segmentMultipliersOf cfg ! k)"
    by (auto simp: js_nth_def k_def)
  define m where "m = segmentMultipliersOf cfg ! k"
  from b k(1) have m: "\<bar>m\<bar> \<le> ?B" by (simp add: boundedShape_def list_all_length m_def)
  define j where "j = 1 + real_of_int (int (i mod 5) - 2) * 0.04"
  have "i mod 5 < 5" by simp
  then have "real (i mod 5) < 5" by linarith
  then have jb: "\<bar>j\<bar> \<le> 2"
    unfolding j_def using jitter_bound [of "real (i mod 5)"] by simp
  define s1 where "s1 = dailyBase cfg + w"
  define s2 where "s2 = s1 + dr"
  define s3 where "s3 = s2 + boost"
  define P where "P = (2::real) ^ 804"
  define Q where "Q = (2::real) ^ 1000"
  define X where "X = (4 * ?B + 1) * ?B"
  note sb = shapeBound_facts [folded P_def Q_def X_def]
  have PQ: "P \<le> Q" by (simp add: P_def Q_def)
  from base w have s1: "\<bar>s1\<bar> \<le> 2 * ?B + 1" unfolding s1_def by linarith
  with drb have s2: "\<bar>s2\<bar> \<le> 3 * ?B + 1" unfolding s2_def by linarith
  with boost have s3: "\<bar>s3\<bar> \<le> 4 * ?B + 1" unfolding s3_def by linarith
  have p1: "\<bar>s3 * m\<bar> \<le> X"
    unfolding abs_mult X_def using s3 m by (intro mult_mono) simp_all
  have "\<bar>s3 * m\<bar> * \<bar>j\<bar> \<le> X * 2"
    using p1 jb by (intro mult_mono) simp_all
  then have "\<bar>s3 * m * j\<bar> \<le> X * 2" by (simp only: abs_mult)
  with sb(3) have p2: "\<bar>s3 * m * j\<bar> \<le> P" by linarith
  from sb(1) have B0: "0 \<le> ?B" by linarith
  from s1 sb(2) B0 have "\<bar>dailyBase cfg + w\<bar> \<le> Q" unfolding s1_def by linarith
  then have a1: "js_add (Num (dailyBase cfg)) (Num w) = Num s1"
    unfolding s1_def Q_def by (rule js_add_Num)
  from s2 sb(2) B0 have "\<bar>s1 + dr\<bar> \<le> Q" unfolding s2_def by linarith
  then have a2: "js_add (Num s1) (Num dr) = Num s2"
    unfolding s2_def Q_def by (rule js_add_Num)
  from s3 sb(2) have "\<bar>s2 + boost\<bar> \<le> Q" unfolding s3_def by linarith
  then have a3: "js_add (Num s2) (Num boost) = Num s3"
    unfolding s3_def Q_def by (rule js_add_Num)
  have "0 \<le> X" using p1 by linarith
  with p1 sb(3) PQ have "\<bar>s3 * m\<bar> \<le> Q" by linarith
  then have m1: "js_mul (Num s3) (Num m) = Num (s3 * m)"
    unfolding Q_def by (rule js_mul_Num)
  from p2 PQ have "\<bar>s3 * m * j\<bar> \<le> Q" by linarith
  then have m2: "js_mul (Num (s3 * m)) (Num j) = Num (s3 * m * j)"
    unfolding Q_def by (rule js_mul_Num)
  have "increment len cfg i
      = js_max (Num 1)
          (js_mul (js_mul (js_add (js_add (js_add (Num (dailyBase cfg)) (Num w)) (Num dr))
                     (Num boost)) (Num m)) (Num j))"
    unfolding increment_def Let_def dr k(2) to_number_def option.case
      w_def boost_def m_def j_def ..
  then have "increment len cfg i = Num (max 1 (s3 * m * j))"
    by (simp only: a1 a2 a3 m1 m2 js_max.simps)
  moreover have "(1::real) \<le> P" by (simp add: P_def)
  with p2 have "max 1 (s3 * m * j) \<le> P" by (simp add: abs_le_iff)
  ultimately show ?thesis unfolding P_def by auto
qed

lemma map_Num_ex:
  "(\<And>x. x \<in> set xs \<Longrightarrow> \<exists>r. f x = Num r \<and> P r) \<Longrightarrow>
   \<exists>rs. map f xs = map Num rs \<and> (\<forall>r\<in>set rs. P r)"
proof (induction xs)
  case Nil
  then show ?case by simp
next
  case (Cons x xs)
  then obtain rs where rs: "map f xs = map Num rs" "\<forall>r\<in>set rs. P r" by auto
  from Cons.prems obtain r where "f x = Num r" "P r" by auto
  with rs have "map f (x # xs) = map Num (r # rs) \<and> (\<forall>r\<in>set (r # rs). P r)" by simp
  then show ?case by blast
qed

lemma increments_real:
  assumes "boundedShape len cfg" "segmentMultipliers cfg \<noteq> Some []" "2 \<le> len"
  shows "\<exists>rs. increments len cfg = map Num rs \<and> (\<forall>r\<in>set rs. 1 \<le> r \<and> r \<le> 2 ^ 804)
           \<and> length rs = nat (len - 1)"
proof -
  have "\<And>i. i \<in> set [0..<nat (len - 1)] \<Longrightarrow>
      \<exists>r. increment len cfg i = Num r \<and> (1 \<le> r \<and> r \<le> 2 ^ 804)"
    using increment_bounded [OF assms] by simp
  from map_Num_ex [of "[0..<nat (len - 1)]" "increment len cfg" "\<lambda>r. 1 \<le> r \<and> r \<le> 2 ^ 804", OF this]
  obtain rs where rs: "increments len cfg = map Num rs" "\<forall>r\<in>set rs. 1 \<le> r \<and> r \<le> 2 ^ 804"
    unfolding increments_def by blast
  have "length (increments len cfg) = nat (len - 1)" by (simp add: increments_def)
  with rs(1) have "length rs = nat (len - 1)" by (metis length_map)
  with rs show ?thesis by blast
qed

lemma foldl_js_add:
  "0 \<le> a \<Longrightarrow> \<forall>r\<in>set rs. 0 \<le> r \<Longrightarrow> a + sum_list rs < overflowThreshold \<Longrightarrow>
   foldl js_add (Num a) (map Num rs) = Num (a + sum_list rs)"
proof (induction rs arbitrary: a)
  case Nil
  then show ?case by simp
next
  case (Cons r rs)
  from Cons.prems(2) have r0: "0 \<le> r" and rest: "\<forall>r\<in>set rs. 0 \<le> r" by simp_all
  from rest have s0: "0 \<le> sum_list rs" by (intro sum_list_nonneg) simp
  from Cons.prems(1,3) r0 s0 have "\<bar>a + r\<bar> < overflowThreshold" by simp
  then have "js_add (Num a) (Num r) = Num (a + r)" by (simp add: fromReal_Num)
  moreover from Cons.prems(1) r0 have "0 \<le> a + r" by simp
  moreover from Cons.prems(3) have "a + r + sum_list rs < overflowThreshold" by simp
  ultimately show ?case using Cons.IH [of "a + r"] rest by (simp add: add.assoc)
qed

lemma sum_list_bounds:
  "\<forall>r\<in>set rs. (1::real) \<le> r \<and> r \<le> R \<Longrightarrow>
   real (length rs) \<le> sum_list rs \<and> sum_list rs \<le> real (length rs) * R"
  by (induction rs) (auto simp: algebra_simps)

lemma sum_real:
  assumes rs: "\<forall>r\<in>set rs. 1 \<le> r \<and> r \<le> 2 ^ 804" and n: "length rs < 2 ^ 32"
  shows "sumOf (map Num rs) = Num (sum_list rs)" "real (length rs) \<le> sum_list rs"
    "sum_list rs < overflowThreshold"
proof -
  from sum_list_bounds [OF rs]
  have lo: "real (length rs) \<le> sum_list rs" and hi: "sum_list rs \<le> real (length rs) * 2 ^ 804"
    by simp_all
  from n have "real (length rs) \<le> 2 ^ 32" by (simp add: of_nat_less_numeral_power_cancel_iff less_imp_le)
  then have "real (length rs) * 2 ^ 804 \<le> 2 ^ 32 * 2 ^ 804" by (intro mult_right_mono) simp_all
  also have "(2::real) ^ 32 * 2 ^ 804 = 2 ^ 836" by (simp add: power_add [symmetric])
  also have "(2::real) ^ 836 < 2 ^ 1023" by simp
  finally have "real (length rs) * 2 ^ 804 < overflowThreshold" using threshold_big by linarith
  with hi show fin: "sum_list rs < overflowThreshold" by linarith
  from rs have "\<forall>r\<in>set rs. 0 \<le> r" by force
  from foldl_js_add [OF _ this, of 0] fin show "sumOf (map Num rs) = Num (sum_list rs)"
    by (simp add: sumOf_def)
  from lo show "real (length rs) \<le> sum_list rs" .
qed

text \<open>
  Claim C10, amended. For every length from 2 to below \<open>2^32\<close> and every bounded shape whose
  array of segment multipliers is absent or not empty, each of the \<open>length - 1\<close> raw
  increments is a number of at least 1, their sum is a number of at least \<open>length - 1\<close>,
  hence positive, and the scale is \<open>target / sum\<close>: the branch that sets the scale to 0 is
  not taken. The series is then not all zero unless the target is 0, its last value being
  the target.
\<close>

theorem fallback_unreachable:
  assumes "2 \<le> len" "len < 2 ^ 32" "segmentMultipliers cfg \<noteq> Some []" "boundedShape len cfg"
  shows "length (increments len cfg) = nat (len - 1)
       \<and> list_all (js_le (Num 1)) (increments len cfg)
       \<and> js_le (Num (real_of_int (len - 1))) (sumOf (increments len cfg))
       \<and> js_gt (sumOf (increments len cfg)) (Num 0)
       \<and> scaleOf target (sumOf (increments len cfg))
           = js_div (Num target) (sumOf (increments len cfg))
       \<and> (target \<noteq> 0 \<longrightarrow>
            \<not> list_all (\<lambda>p. val p = Num 0) (buildTargetCumulativeTimeline len target cfg))"
proof -
  from increments_real [OF assms(4,3,1)]
  obtain rs where rs: "increments len cfg = map Num rs" "\<forall>r\<in>set rs. 1 \<le> r \<and> r \<le> 2 ^ 804"
    "length rs = nat (len - 1)" by blast
  from rs(3) assms(1,2) have n: "length rs < 2 ^ 32"
    by (simp add: nat_less_iff)
  note s = sum_real [OF rs(2) n]
  from s(2) rs(3) assms(1) have ge: "real_of_int (len - 1) \<le> sum_list rs" by simp
  with assms(1) have pos: "0 < sum_list rs" by simp
  from rs(2) have "list_all (js_le (Num 1)) (map Num rs)" by (simp add: list_all_iff)
  with rs(1) have all: "list_all (js_le (Num 1)) (increments len cfg)" by simp
  have len: "length (increments len cfg) = nat (len - 1)" by (simp add: increments_def)
  have nz: "target \<noteq> 0 \<longrightarrow>
      \<not> list_all (\<lambda>p. val p = Num 0) (buildTargetCumulativeTimeline len target cfg)"
  proof
    assume t: "target \<noteq> 0"
    from timeline_last [OF assms(1), of target cfg]
    have "last (buildTargetCumulativeTimeline len target cfg)
        \<in> set (buildTargetCumulativeTimeline len target cfg)"
      "val (last (buildTargetCumulativeTimeline len target cfg)) = Num target" by simp_all
    with t show "\<not> list_all (\<lambda>p. val p = Num 0) (buildTargetCumulativeTimeline len target cfg)"
      unfolding list_all_iff by (metis jsnum.inject)
  qed
  from len all s(1) ge pos rs(1) nz show ?thesis by (simp add: scaleOf_def)
qed

theorem fallback_unreachable_witness:
  "(2::int) \<le> 5 \<and> (5::int) < 2 ^ 32 \<and> segmentMultipliers flatShape \<noteq> Some []
   \<and> boundedShape 5 flatShape
   \<and> js_gt (sumOf (increments 5 flatShape)) (Num 0)
   \<and> scaleOf 100 (sumOf (increments 5 flatShape))
       = js_div (Num 100) (sumOf (increments 5 flatShape))
   \<and> \<not> list_all (\<lambda>p. val p = Num 0) (buildTargetCumulativeTimeline 5 100 flatShape)"
proof -
  have b: "boundedShape 5 flatShape"
    by (simp add: boundedShape_def flatShape_def segmentMultipliersOf_def shapeBound_def)
  have s: "segmentMultipliers flatShape \<noteq> Some []" by (simp add: flatShape_def)
  from fallback_unreachable [of 5 flatShape 100, OF _ _ s b] b s show ?thesis by simp
qed

text \<open>
  Claim C10 as stated fails in three ways. With an empty array of segment multipliers the
  segment index is \<open>-1\<close>, the multiplier read there is \<open>undefined\<close>, the increment is
  \<open>NaN\<close>, so is the sum, the test \<open>sum > 0\<close> is false and the scale is set to 0. With
  a base and a drift of \<open>1.7e308\<close> and the multiplier 0 the daily step of the second
  increment is \<open>Infinity\<close> and its product with 0 is \<open>NaN\<close>, with the same end. And with
  the target 0 the series of length 3 is all zero, by the ordinary branch.
\<close>

lemma increments_noSegments: "increments 2 noSegments = [NaN]"
  by (simp add: noSegments_def increments_def increment_def segmentMultipliersOf_def
      segmentIndex_def js_nth_def to_number_def upt_rec Let_def fromReal_small)

lemma increments_steepShape: "increments 3 steepShape = [Num 1, NaN]"
  by (simp add: steepShape_def increments_def increment_def segmentMultipliersOf_def
      segmentIndex_def js_nth_def to_number_def upt_rec Let_def fromReal_def
      overflowThreshold_def)

lemma zero_target_series:
  "map val (buildTargetCumulativeTimeline 3 0 flatShape) = [Num 0, Num 0, Num 0]"
  by (simp add: buildTargetCumulativeTimeline_def flatShape_def increments_def
      increment_def segmentMultipliersOf_def segmentIndex_def js_nth_def sumOf_def
      scaleOf_def upt_rec to_jsnum_def to_number_def Let_def round_def fromReal_small)

theorem fallback_reached:
  "increments 2 noSegments = [NaN]
   \<and> \<not> js_gt (sumOf (increments 2 noSegments)) (Num 0)
   \<and> scaleOf 100 (sumOf (increments 2 noSegments)) = Num 0
   \<and> increments 3 steepShape = [Num 1, NaN]
   \<and> \<not> js_gt (sumOf (increments 3 steepShape)) (Num 0)
   \<and> scaleOf 100 (sumOf (increments 3 steepShape)) = Num 0
   \<and> map val (buildTargetCumulativeTimeline 3 0 flatShape) = [Num 0, Num 0, Num 0]"
  by (simp add: increments_noSegments increments_steepShape zero_target_series sumOf_def
      scaleOf_def fromReal_small)

subsection \<open>Monotonicity\<close>











subsection \<open>The week flag\<close>

lemma walk_week_flag:
  "\<forall>p\<in>set (walk len target incs scale tot idxs). isWeek p = (day p mod 7 = 0)"
  by (induction idxs arbitrary: tot) (simp_all add: Let_def)

lemma week_flag_from_length_2:
  "2 \<le> len \<Longrightarrow>
   \<forall>p\<in>set (buildTargetCumulativeTimeline len target cfg). isWeek p = (day p mod 7 = 0)"
  by (simp add: buildTargetCumulativeTimeline_def Let_def walk_week_flag)



section \<open>Properties of the axis scale planner\<close>






















section \<open>Properties of the coordinate projector\<close>

lemma plotWidth_pos: "0 < chartPlotWidth n"
  by (simp add: chartPlotWidth_def chartSvgWidth_def chartWidth_def chartPaddingLeft_def
      chartPaddingRight_def max_def)

lemma step_pos: "0 < step n"
  using plotWidth_pos [of n] by (simp add: step_def)

lemma chartPoints_xPos:
  "i < length timeline \<Longrightarrow>
   xPos (chartPoints timeline ! i) = chartPaddingLeft + real i * step (length timeline)"
  by (simp add: chartPoints_def nth_enumerate_eq)

lemma safeIndex_grid:
  assumes "2 \<le> n" "i < n"
  shows "safeIndex n (chartPaddingLeft + real i * step n) = int i"
proof -
  have sp: "0 < step n" by (rule step_pos)
  from assms have st: "step n * (real n - 1) = chartPlotWidth n" by (simp add: step_def)
  from assms have "real i \<le> real n - 1" by simp
  with sp have "real i * step n \<le> (real n - 1) * step n" by (intro mult_right_mono) simp_all
  with st have up: "real i * step n \<le> chartPlotWidth n" by (simp add: mult.commute)
  from sp have lo: "0 \<le> real i * step n" by simp
  from up lo have cl: "clampedX n (chartPaddingLeft + real i * step n)
      = chartPaddingLeft + real i * step n"
    by (simp add: clampedX_def chartPlotWidth_def min_def max_def)
  from sp have "(chartPaddingLeft + real i * step n - chartPaddingLeft) / step n = real i"
    by simp
  with cl have "round ((clampedX n (chartPaddingLeft + real i * step n) - chartPaddingLeft)
      / step n) = int i" by simp
  with assms show ?thesis by (simp add: safeIndex_def Let_def)
qed

text \<open>
  Claim C3. For every series of at least 2 points and every index \<open>i\<close> of the series, the
  inverse mapping applied to the projected \<open>x\<close> of point \<open>i\<close> (clamped to the plot range,
  divided by the step, rounded, clamped to the indices) is \<open>i\<close>; so is the index set by
  the handler for a pointer at that \<open>x\<close> when the element is rendered at its own width.
\<close>

theorem grid_round_trip:
  assumes "2 \<le> length timeline" "i < length timeline"
  shows "safeIndex (length timeline) (xPos (chartPoints timeline ! i)) = int i
       \<and> onMouseMove (length timeline) (xPos (chartPoints timeline ! i)) 0
            (chartSvgWidth (length timeline)) h = Some (int i)"
proof -
  have "0 < chartSvgWidth (length timeline)"
    using plotWidth_pos [of "length timeline"]
    by (simp add: chartPlotWidth_def chartPaddingLeft_def chartPaddingRight_def)
  moreover from assms have "length timeline \<noteq> 0" by auto
  ultimately show ?thesis using assms
    by (simp add: chartPoints_xPos safeIndex_grid onMouseMove_def Let_def)
qed

theorem grid_round_trip_witness:
  "2 \<le> length (buildTargetCumulativeTimeline 5 100 flatShape)
   \<and> 3 < length (buildTargetCumulativeTimeline 5 100 flatShape)
   \<and> safeIndex 5 (xPos (chartPoints (buildTargetCumulativeTimeline 5 100 flatShape) ! 3)) = 3"
proof -
  have l: "length (buildTargetCumulativeTimeline 5 100 flatShape) = 5"
    by (simp add: buildTargetCumulativeTimeline_def walk_length Let_def)
  then have "2 \<le> length (buildTargetCumulativeTimeline 5 100 flatShape)"
    "3 < length (buildTargetCumulativeTimeline 5 100 flatShape)" by simp_all
  from grid_round_trip [OF this] l show ?thesis by simp
qed

text \<open>
  Claim C7. For every series of at least 1 point and every pointer position, inside the
  plot or not, the handler sets an index between 0 and \<open>length - 1\<close>: the index is
  \<open>safeIndex\<close> of the rescaled x, whose clamped value lies in the plot range.
\<close>

theorem hover_index_in_range:
  assumes "1 \<le> n" "0 < boundsWidth"
  shows "\<exists>i. onMouseMove n clientX boundsLeft boundsWidth h = Some i \<and> 0 \<le> i \<and> i \<le> int n - 1
           \<and> i = safeIndex n ((clientX - boundsLeft) * (chartSvgWidth n / boundsWidth))
           \<and> chartPaddingLeft
               \<le> clampedX n ((clientX - boundsLeft) * (chartSvgWidth n / boundsWidth))
           \<and> clampedX n ((clientX - boundsLeft) * (chartSvgWidth n / boundsWidth))
               \<le> chartSvgWidth n - chartPaddingRight"
proof -
  have "chartPaddingLeft \<le> chartSvgWidth n - chartPaddingRight"
    using plotWidth_pos [of n] by (simp add: chartPlotWidth_def)
  with assms show ?thesis
    by (simp add: onMouseMove_def Let_def safeIndex_def clampedX_def)
qed

theorem hover_index_in_range_witness:
  "(1::nat) \<le> 68 \<and> (0::real) < 720
   \<and> (\<exists>i. onMouseMove 68 5000 0 720 None = Some i \<and> 0 \<le> i \<and> i \<le> 67)"
  using hover_index_in_range [of 68 720 5000 0 None] by auto


section \<open>Properties of the date axis labeler\<close>

lemma div_le_0: "0 < t \<Longrightarrow> a < t \<Longrightarrow> (a::int) div t \<le> 0"
  by (metis div_pos_pos_trivial nle_le pos_imp_zdiv_nonneg_iff)

lemma tickLoop_result:
  assumes "0 < t"
  shows "tickLoop t len i acc
       = Some (acc @ map (\<lambda>k. i + int k * t) [0..<nat ((len - i + t - 1) div t)])"
proof (induction "nat (len - i)" arbitrary: i acc rule: less_induct)
  case less
  show ?case
  proof (cases "i < len")
    case False
    with assms have "(len - i + t - 1) div t \<le> 0"
      by (intro div_le_0) simp_all
    with False show ?thesis by (subst tickLoop.simps) simp
  next
    case True
    with assms have m: "nat (len - (i + t)) < nat (len - i)" by simp
    have "(len - i - 1 + t) div t = (len - i - 1) div t + 1"
      using assms by simp
    then have d: "(len - i + t - 1) div t = (len - (i + t) + t - 1) div t + 1"
      by (simp add: algebra_simps)
    have nn: "0 \<le> (len - (i + t) + t - 1) div t"
      using True assms by (simp add: pos_imp_zdiv_nonneg_iff)
    define n where "n = nat ((len - (i + t) + t - 1) div t)"
    from d nn have c: "nat ((len - i + t - 1) div t) = Suc n" by (simp add: n_def)
    have "map (\<lambda>k. i + int k * t) [0..<Suc n] = i # map (\<lambda>k. (i + t) + int k * t) [0..<n]"
      by (simp add: upt_rec [of 0 "Suc n"] map_Suc_upt [symmetric] algebra_simps del: upt_Suc)
    with less [OF m, of "acc @ [i]"] True c show ?thesis
      by (subst tickLoop.simps) (simp add: n_def)
  qed
qed


lemma js_last_snoc: "js_last (xs @ [a]) = Some a"
  by (simp add: js_last_def js_nth_def)

lemma tickOffsets_general:
  assumes "1 \<le> len" "0 < t"
  shows "tickOffsets t len
       = Some (let ms = map (\<lambda>k. int k * t) [0..<Suc (nat ((len - 1) div t))]
               in if last ms = len - 1 then ms else ms @ [len - 1])"
proof -
  define m where "m = nat ((len - 1) div t)"
  from assms have nn: "0 \<le> (len - 1) div t" by (simp add: pos_imp_zdiv_nonneg_iff)
  have "(len - 1 + t) div t = (len - 1) div t + 1" using assms by simp
  then have "(len - 0 + t - 1) div t = (len - 1) div t + 1" by (simp add: algebra_simps)
  with nn have c: "nat ((len - 0 + t - 1) div t) = Suc m" by (simp add: m_def)
  have loop: "tickLoop t len 0 [] = Some (map (\<lambda>k. int k * t) [0..<Suc m])"
    using tickLoop_result [OF assms(2), of len 0 "[]"] c by simp
  have l: "js_last (map (\<lambda>k. int k * t) [0..<Suc m]) = Some (int m * t)"
    using js_last_snoc [of "map (\<lambda>k. int k * t) [0..<m]" "int m * t"] by simp
  have l': "last (map (\<lambda>k. int k * t) [0..<Suc m]) = int m * t" by simp
  show ?thesis
    using assms(1) by (simp add: tickOffsets_def loop js_last_snoc m_def [symmetric])
qed

lemma tickOffsets_68:
  "tickOffsets tickInterval 68 = Some [0, 7, 14, 21, 28, 35, 42, 49, 56, 63, 67]"
  by (simp add: tickOffsets_general tickInterval_def upt_rec Let_def)

lemma tickAt_0: "tickAt 0 = \<lparr>index = 0, label = ''2025-11-01''\<rparr>"
  by (simp add: tickAt_def formatDateLabel_def formatFullDate_def setDate_def
      timelineStart_def daysInMonth_def isLeapYear_def padStart_def digitChar_def
      rollForward.simps numberToString.simps)

lemma tickAt_67: "tickAt 67 = \<lparr>index = 67, label = ''2026-01-07''\<rparr>"
  by (simp add: tickAt_def formatDateLabel_def formatFullDate_def setDate_def
      timelineStart_def daysInMonth_def isLeapYear_def padStart_def digitChar_def
      rollForward.simps numberToString.simps)

text \<open>
  Claim C9. For every length of at least 1 and every positive tick interval the loop
  returns, the offsets are the multiples \<open>0, t, 2t, \<dots>\<close> of the interval up to
  \<open>length - 1\<close>, and \<open>length - 1\<close> is appended when the last multiple is not
  \<open>length - 1\<close>. With length 68 and the interval 7 of the code, the ticks have the indices
  0, 7, \<dots>, 63 and 67; the first is index 0 labelled 2025-11-01 and the last is index 67.
\<close>

theorem tick_offsets:
  assumes "1 \<le> len" "0 < t"
  shows "tickOffsets t len
           = Some (let ms = map (\<lambda>k. int k * t) [0..<Suc (nat ((len - 1) div t))]
                   in if last ms = len - 1 then ms else ms @ [len - 1])
       \<and> map_option (map index) (xAxisTicks 68)
           = Some [0, 7, 14, 21, 28, 35, 42, 49, 56, 63, 67]
       \<and> map_option hd (xAxisTicks 68) = Some \<lparr>index = 0, label = ''2025-11-01''\<rparr>
       \<and> map_option last (xAxisTicks 68) = Some \<lparr>index = 67, label = ''2026-01-07''\<rparr>"
proof -
  have x: "xAxisTicks 68 = Some (map tickAt [0, 7, 14, 21, 28, 35, 42, 49, 56, 63, 67])"
    by (simp add: xAxisTicks_def tickOffsets_68)
  have i: "map index (map tickAt [0, 7, 14, 21, 28, 35, 42, 49, 56, 63, 67])
         = [0, 7, 14, 21, 28, 35, 42, 49, 56, 63, 67]"
    by (simp add: tickAt_def)
  have f: "hd (map tickAt [0, 7, 14, 21, 28, 35, 42, 49, 56, 63, 67])
         = \<lparr>index = 0, label = ''2025-11-01''\<rparr>"
    by (simp add: tickAt_0)
  have l: "last (map tickAt [0, 7, 14, 21, 28, 35, 42, 49, 56, 63, 67])
         = \<lparr>index = 67, label = ''2026-01-07''\<rparr>"
    by (simp add: tickAt_67)
  from tickOffsets_general [OF assms] x i f l show ?thesis by (simp only: option.map)
qed

theorem tick_offsets_witness:
  "(1::int) \<le> 68 \<and> (0::int) < 7
   \<and> tickOffsets 7 68 = Some [0, 7, 14, 21, 28, 35, 42, 49, 56, 63, 67]"
proof -
  have e: "(let ms = map (\<lambda>k. int k * 7) [0..<Suc (nat ((68 - 1) div 7))]
            in if last ms = 68 - 1 then ms else ms @ [68 - 1])
         = [0, 7, 14, 21, 28, 35, 42, 49, 56, 63, 67]"
    by (simp add: Let_def upt_rec)
  have h: "(1::int) \<le> 68" "(0::int) < 7" by simp_all
  from tick_offsets [OF h] have "tickOffsets 7 68
           = Some (let ms = map (\<lambda>k. int k * 7) [0..<Suc (nat ((68 - 1) div 7))]
                   in if last ms = 68 - 1 then ms else ms @ [68 - 1])" by (rule conjunct1)
  with e have "tickOffsets 7 68 = Some [0, 7, 14, 21, 28, 35, 42, 49, 56, 63, 67]"
    by (simp only:)
  with h show ?thesis by blast
qed

end
